theory Spec2Isabelle
  imports Main "HOL-Library.Word" "HOL-Library.Sublist"
begin

section \<open>Values of the program\<close>

text \<open>
  The relay is one Flask view function, \<open>proxy(path)\<close> in \<open>app.py\<close>. It reads the
  inbound request, calls \<open>requests.request\<close> once, prints two log blocks and returns a
  \<open>Response\<close>. The view is modelled first with the library call as a function it is
  given; what the libraries do around it (the header object Flask hands in, the exchange
  \<open>requests\<close> runs with the upstream, the \<open>Response\<close> object werkzeug builds) follows
  in sections of its own.

  A Python \<open>str\<close> is a sequence of code points and a Python \<open>bytes\<close> a sequence of
  octets. HTTP header names and values reach the program decoded as ISO-8859-1, one
  character per octet, so they are kept as \<open>string\<close>.
\<close>

type_synonym pystr = "nat list"
type_synonym byte = "8 word"
type_synonym header_items = "(string \<times> string) list"

definition ustr :: "string \<Rightarrow> pystr" where
  "ustr s = map of_char s"

subsection \<open>\<open>str.lower\<close> on ISO-8859-1 characters\<close>

text \<open>
  Among the code points below 256, \<open>str.lower\<close> changes the letters \<open>A\<close> to \<open>Z\<close>
  and the upper-case letters \<open>0xC0\<close> to \<open>0xDE\<close> (\<open>0xD7\<close>, the multiplication sign,
  apart), each to the code point 32 above.
\<close>

definition lower_char :: "char \<Rightarrow> char" where
  "lower_char c =
     (let n = (of_char c :: nat)
      in if (65 \<le> n \<and> n \<le> 90) \<or> (192 \<le> n \<and> n \<le> 222 \<and> n \<noteq> 215)
         then char_of (n + 32) else c)"

definition lower :: "string \<Rightarrow> string" where
  "lower s = map lower_char s"

subsection \<open>\<open>str.upper\<close> and \<open>str.title\<close> on ASCII\<close>

text \<open>
  \<open>str.title\<close> goes through the string once: a character after a cased character is
  put in lower case, any other character in title case, which for an ASCII letter is
  its upper case. HTTP header names are tokens of ASCII characters, and on those these
  definitions are the library's.
\<close>

definition is_ascii_upper :: "char \<Rightarrow> bool" where
  "is_ascii_upper c \<longleftrightarrow> 65 \<le> (of_char c :: nat) \<and> (of_char c :: nat) \<le> 90"

definition is_ascii_lower :: "char \<Rightarrow> bool" where
  "is_ascii_lower c \<longleftrightarrow> 97 \<le> (of_char c :: nat) \<and> (of_char c :: nat) \<le> 122"

definition upper_char :: "char \<Rightarrow> char" where
  "upper_char c = (if is_ascii_lower c then char_of ((of_char c :: nat) - 32) else c)"

fun title_from :: "bool \<Rightarrow> string \<Rightarrow> string" where
  "title_from previous_is_cased [] = []"
| "title_from previous_is_cased (c # cs) =
     (if previous_is_cased then lower_char c else upper_char c)
       # title_from (is_ascii_upper c \<or> is_ascii_lower c) cs"

definition title :: "string \<Rightarrow> string" where
  "title s = title_from False s"

definition ascii :: "string \<Rightarrow> bool" where
  "ascii s \<longleftrightarrow> list_all (\<lambda>c. (of_char c :: nat) < 128) s"

subsection \<open>\<open>dict\<close>\<close>

text \<open>
  A Python \<open>dict\<close> keeps its keys in insertion order and holds each key once: an
  association list. \<open>d[k] = v\<close> overwrites the value of a present key in place and
  appends an absent one; \<open>dict(pairs)\<close> stores the pairs from left to right;
  \<open>d.pop(k, None)\<close> removes the key when it is there and does nothing otherwise.
\<close>

fun dict_setitem :: "('k \<times> 'v) list \<Rightarrow> 'k \<Rightarrow> 'v \<Rightarrow> ('k \<times> 'v) list" where
  "dict_setitem [] k v = [(k, v)]"
| "dict_setitem ((k', v') # d) k v =
     (if k' = k then (k', v) # d else (k', v') # dict_setitem d k v)"

definition dict_of_pairs :: "('k \<times> 'v) list \<Rightarrow> ('k \<times> 'v) list" where
  "dict_of_pairs ps = foldl (\<lambda>d (k, v). dict_setitem d k v) [] ps"

definition dict_pop :: "('k \<times> 'v) list \<Rightarrow> 'k \<Rightarrow> ('k \<times> 'v) list" where
  "dict_pop d k = filter (\<lambda>(k', v). k' \<noteq> k) d"

subsection \<open>The inbound header object\<close>

text \<open>
  \<open>request.headers\<close> is the framework's header object, an ordered multi-map with
  case-insensitive lookup; it is given by the pairs \<open>request.headers.items()\<close> yields.
  The object has a \<open>keys()\<close> method, so \<open>dict(request.headers)\<close> follows the mapping
  protocol: it stores, for each yielded name in order, the value that looking the name
  up returns, which is the value of the first header of that name, compared without
  regard to case.
\<close>

fun headers_getitem :: "header_items \<Rightarrow> string \<Rightarrow> string option" where
  "headers_getitem [] key = None"
| "headers_getitem ((k, v) # hs) key =
     (if lower k = lower key then Some v else headers_getitem hs key)"

definition dict_of_headers :: "header_items \<Rightarrow> header_items" where
  "dict_of_headers hs =
     foldl (\<lambda>d k. case headers_getitem hs k of
                     Some v \<Rightarrow> dict_setitem d k v
                   | None \<Rightarrow> d)
           [] (map fst hs)"

text \<open>
  Under Flask the object is filled from the WSGI environment, which holds one variable
  per header name: \<open>HTTP_HOST\<close>, \<open>CONTENT_LENGTH\<close>, \<open>HTTP_AUTHORIZATION\<close>. The
  name the object yields for a variable is the variable's name without the prefix,
  with \<open>_\<close> turned into \<open>-\<close>, in title case. So whatever the spelling on the wire,
  the view sees \<open>Host\<close> and \<open>Content-Length\<close>; and a name sent on several lines
  arrives once, its values joined by commas. These are the header lists the view can
  be handed: the names are ASCII, each is its own title case, and no two are equal
  without regard to case.
\<close>

definition flask_headers :: "header_items \<Rightarrow> bool" where
  "flask_headers hs \<longleftrightarrow>
     distinct (map (lower \<circ> fst) hs) \<and> list_all (\<lambda>(k, v). ascii k \<and> k = title k) hs"

subsection \<open>\<open>bytes.decode("utf-8", errors="ignore")\<close>\<close>

text \<open>
  The decoder reads one code point at a time. A lead octet that cannot start a
  sequence is skipped alone; a sequence broken by an octet that cannot continue it is
  skipped up to that octet, which is read again as a lead; a sequence cut off by the end
  of the input is skipped whole. With \<open>errors="ignore"\<close> nothing is put in the place of
  what is skipped, and the decoder never raises.
\<close>

definition is_continuation :: "nat \<Rightarrow> bool" where
  "is_continuation b \<longleftrightarrow> 128 \<le> b \<and> b < 192"

fun utf8_ignore :: "nat list \<Rightarrow> pystr" where
  "utf8_ignore [] = []"
| "utf8_ignore (b1 # rest) =
     (if b1 < 128 then b1 # utf8_ignore rest
      else if b1 < 194 then utf8_ignore rest
      else if b1 < 224 then
        (case rest of
           [] \<Rightarrow> []
         | b2 # r2 \<Rightarrow>
             if is_continuation b2
             then ((b1 - 192) * 64 + (b2 - 128)) # utf8_ignore r2
             else utf8_ignore rest)
      else if b1 < 240 then
        (case rest of
           [] \<Rightarrow> []
         | b2 # r2 \<Rightarrow>
             if \<not> is_continuation b2 \<or> (if b2 < 160 then b1 = 224 else b1 = 237)
             then utf8_ignore rest
             else (case r2 of
                     [] \<Rightarrow> []
                   | b3 # r3 \<Rightarrow>
                       if is_continuation b3
                       then ((b1 - 224) * 4096 + (b2 - 128) * 64 + (b3 - 128))
                              # utf8_ignore r3
                       else utf8_ignore r2))
      else if b1 < 245 then
        (case rest of
           [] \<Rightarrow> []
         | b2 # r2 \<Rightarrow>
             if \<not> is_continuation b2 \<or> (if b2 < 144 then b1 = 240 else b1 = 244)
             then utf8_ignore rest
             else (case r2 of
                     [] \<Rightarrow> []
                   | b3 # r3 \<Rightarrow>
                       if \<not> is_continuation b3 then utf8_ignore r2
                       else (case r3 of
                               [] \<Rightarrow> []
                             | b4 # r4 \<Rightarrow>
                                 if is_continuation b4
                                 then ((b1 - 240) * 262144 + (b2 - 128) * 4096
                                        + (b3 - 128) * 64 + (b4 - 128))
                                        # utf8_ignore r4
                                 else utf8_ignore r3)))
      else utf8_ignore rest)"

definition decode_utf8_ignore :: "byte list \<Rightarrow> pystr" where
  "decode_utf8_ignore bs = utf8_ignore (map unat bs)"

subsection \<open>Printing\<close>

text \<open>
  \<open>print(a, b)\<close> writes its arguments separated by one space; the log is the list of
  the texts written, one per call of \<open>print\<close>. \<open>str\<close> of an integer is its decimal
  numeral.
\<close>

fun print_args :: "pystr list \<Rightarrow> pystr" where
  "print_args [] = []"
| "print_args [a] = a"
| "print_args (a # b # rest) = a @ [32] @ print_args (b # rest)"

fun str_nat :: "nat \<Rightarrow> pystr" where
  "str_nat n = (if n < 10 then [48 + n] else str_nat (n div 10) @ [48 + n mod 10])"

declare str_nat.simps [simp del]

definition str_int :: "int \<Rightarrow> pystr" where
  "str_int i = (if i < 0 then 45 # str_nat (nat (- i)) else str_nat (nat i))"

section \<open>The relay\<close>

subsection \<open>Requests, responses, failures\<close>

text \<open>
  The inbound request as the view reads it: \<open>request.method\<close>, \<open>request.url\<close>,
  \<open>request.headers.items()\<close>, \<open>request.args\<close> and \<open>request.get_data()\<close>.
\<close>

record inbound_request =
  request_method :: pystr
  request_url :: pystr
  request_headers :: header_items
  request_args :: "(pystr \<times> pystr) list"
  request_data :: "byte list"

text \<open>
  The keyword arguments of the one call of \<open>requests.request\<close>; the argument
  \<open>method\<close> is the field \<open>http_method\<close>.
\<close>

record outbound_request =
  http_method :: pystr
  url :: pystr
  headers :: header_items
  data :: "byte list"
  params :: "(pystr \<times> pystr) list"
  timeout :: nat

text \<open>
  A response as \<open>requests\<close> hands it over: \<open>resp.status_code\<close>,
  \<open>resp.headers.items()\<close>, \<open>resp.content\<close> (the body, content-decoded) and
  \<open>resp.text\<close>. Instead of a response the library may raise: when the transport fails
  (no connection, timeout, TLS), when a body does not decode, when a redirect chain is
  too long.
\<close>

record upstream_response =
  resp_status_code :: int
  resp_headers :: header_items
  resp_content :: "byte list"
  resp_text :: pystr

datatype requests_exception =
  ConnectionError | Timeout | SSLError | ContentDecodingError | TooManyRedirects

text \<open>
  A function from a request to the response or the exception. The view is given the
  call \<open>requests.request(...)\<close> as such a function; one exchange with the upstream
  server is such a function too (section \<open>The libraries around the view\<close>).
\<close>

type_synonym upstream = "outbound_request \<Rightarrow> requests_exception + upstream_response"

text \<open>
  The arguments the view gives to \<open>Response(...)\<close>: the body, \<open>status\<close> and
  \<open>headers\<close>. The object built from them is \<open>Response\<close> below.
\<close>

record relayed_response =
  response :: "byte list"
  status :: int
  response_headers :: header_items

text \<open>
  One run of the view: what it printed, the arguments of the call it made, and the
  arguments of the \<open>Response\<close> it returned (\<open>Inr\<close>) or the exception that left it
  (\<open>Inl\<close>).
\<close>

record outcome =
  printed :: "pystr list"
  sent :: outbound_request
  returned :: "requests_exception + relayed_response"

text \<open>The module-level state the view can see.\<close>

record globals =
  MATRIX_BASE :: pystr

definition initial_globals :: globals where
  "initial_globals = \<lparr>MATRIX_BASE = ustr ''https://disaccord.cc''\<rparr>"

subsection \<open>\<open>proxy\<close>\<close>

text \<open>
  The parts of the view in the order of the source: the upstream URL (the f-string of
  its first line), the incoming log block, the headers to forward (the \<open>dict\<close> and
  its two \<open>pop\<close>s), the call of \<open>requests.request\<close>, the response log block,
  the filter on the response headers, and the \<open>Response\<close> returned.
\<close>

definition upstream_url :: "globals \<Rightarrow> pystr \<Rightarrow> pystr" where
  "upstream_url g path = MATRIX_BASE g @ ustr ''/_matrix/client/v3/'' @ path"

definition header_line :: "string \<times> string \<Rightarrow> pystr" where
  "header_line = (\<lambda>(k, v). ustr ''  '' @ ustr k @ ustr '': '' @ ustr v)"

definition incoming_log :: "globals \<Rightarrow> inbound_request \<Rightarrow> pystr \<Rightarrow> pystr list" where
  "incoming_log g request path =
     [print_args [ustr ''=== Incoming from Discourse ===''],
      print_args [ustr ''Method:'', request_method request],
      print_args [ustr ''URL:'', request_url request],
      print_args [ustr ''Upstream URL:'', upstream_url g path],
      print_args [ustr ''Headers:'']]
     @ map (\<lambda>kv. print_args [header_line kv]) (request_headers request)
     @ [print_args [ustr ''Body:'', decode_utf8_ignore (request_data request)],
        print_args [ustr ''==============================='']]"

definition forwarded_headers :: "inbound_request \<Rightarrow> header_items" where
  "forwarded_headers request =
     (let headers = dict_of_headers (request_headers request);
          headers = dict_pop headers ''Host'';
          headers = dict_pop headers ''Content-Length''
      in headers)"

definition upstream_call :: "globals \<Rightarrow> inbound_request \<Rightarrow> pystr \<Rightarrow> outbound_request" where
  "upstream_call g request path =
     \<lparr>http_method = request_method request,
      url = upstream_url g path,
      headers = forwarded_headers request,
      data = request_data request,
      params = request_args request,
      timeout = 30\<rparr>"

definition response_log :: "upstream_response \<Rightarrow> pystr list" where
  "response_log resp =
     [print_args [ustr ''=== Response from Matrix ===''],
      print_args [ustr ''Status:'', str_int (resp_status_code resp)],
      print_args [ustr ''Headers:'']]
     @ map (\<lambda>kv. print_args [header_line kv]) (resp_headers resp)
     @ [print_args [ustr ''Body:'', take 1000 (resp_text resp)],
        print_args [ustr ''============================'']]"

definition excluded_headers :: "string list" where
  "excluded_headers =
     [''content-encoding'', ''content-length'', ''transfer-encoding'', ''connection'']"

definition kept_headers :: "upstream_response \<Rightarrow> header_items" where
  "kept_headers resp =
     filter (\<lambda>(k, v). lower k \<notin> set excluded_headers) (resp_headers resp)"

definition relay :: "upstream_response \<Rightarrow> relayed_response" where
  "relay resp =
     \<lparr>response = resp_content resp,
      status = resp_status_code resp,
      response_headers = dict_of_pairs (kept_headers resp)\<rparr>"

text \<open>
  The view from top to bottom. Its second argument is the call
  \<open>requests.request(...)\<close> as a whole: the function from the arguments of the call
  to what the library hands back or raises. The call stands in no \<open>try\<close>: an
  exception it raises leaves \<open>proxy\<close> after the first log block, before anything of
  the second block is printed and before a \<open>Response\<close> is built. No statement of the
  view assigns to a module-level name, so the globals come back as they went in.
\<close>

definition proxy :: "globals \<Rightarrow> upstream \<Rightarrow> inbound_request \<Rightarrow> pystr \<Rightarrow> outcome \<times> globals" where
  "proxy g requests_request request path =
     (let call = upstream_call g request path
      in case requests_request call of
           Inl exn \<Rightarrow>
             (\<lparr>printed = incoming_log g request path,
               sent = call,
               returned = Inl exn\<rparr>, g)
         | Inr resp \<Rightarrow>
             (\<lparr>printed = incoming_log g request path @ response_log resp,
               sent = call,
               returned = Inr (relay resp)\<rparr>, g))"

text \<open>
  The hosting server runs the view once per request, one run after the other, each
  against whatever the upstream does at that moment.
\<close>

fun serve :: "globals \<Rightarrow> (upstream \<times> inbound_request \<times> pystr) list \<Rightarrow> outcome list \<times> globals" where
  "serve g [] = ([], g)"
| "serve g ((u, request, path) # rest) =
     (let (out, g') = proxy g u request path;
          (outs, g'') = serve g' rest
      in (out # outs, g''))"

section \<open>The libraries around the view\<close>

subsection \<open>\<open>requests.request\<close> and the upstream server\<close>

text \<open>
  \<open>request.args\<close> is a \<open>MultiDict\<close>, given by the pairs of the query string in
  their order. \<open>requests\<close> reads a mapping given as \<open>params\<close> through its
  \<open>items()\<close>, and \<open>MultiDict.items()\<close> yields each key once, in the order of first
  occurrence, with the first of its values.
\<close>

fun multidict_items :: "('k \<times> 'v) list \<Rightarrow> ('k \<times> 'v) list" where
  "multidict_items [] = []"
| "multidict_items ((k, v) # rest) =
     (k, v) # multidict_items (filter (\<lambda>(k', v'). k' \<noteq> k) rest)"

text \<open>
  The request \<open>requests\<close> puts to the upstream for the arguments of the call: method,
  URL, headers and body as given (the library and the transport add headers of their
  own, such as \<open>Host\<close>, \<open>Content-Length\<close> and \<open>User-Agent\<close>, which are not listed),
  and the query pairs as read from the \<open>MultiDict\<close>.
\<close>

definition prepared :: "outbound_request \<Rightarrow> outbound_request" where
  "prepared call = call\<lparr>params := multidict_items (params call)\<rparr>"

text \<open>
  The view does not pass \<open>allow_redirects\<close>, so the library follows redirects: an
  answer with status 301, 302, 303, 307 or 308 and a non-empty \<open>Location\<close> header is
  not handed back; the library goes on to the location.
\<close>

definition is_redirect :: "upstream_response \<Rightarrow> bool" where
  "is_redirect resp \<longleftrightarrow>
     resp_status_code resp \<in> {301, 302, 303, 307, 308}
     \<and> (case headers_getitem (resp_headers resp) ''location'' of
          None \<Rightarrow> False
        | Some location \<Rightarrow> location \<noteq> [])"

text \<open>
  The call \<open>requests.request(...)\<close> against an upstream \<open>server\<close>: the exchange with the
  server gives the answer as the library reads it, or the exception raised on the way.
  An answer that is no redirect is the response of the call. After a redirect the
  result is that of the chain of further exchanges, which \<open>follow\<close> stands for: the
  response at the end of the chain, or the exception raised in it
  (\<open>TooManyRedirects\<close> after thirty).
\<close>

definition session_request ::
  "upstream \<Rightarrow> (upstream_response \<Rightarrow> requests_exception + upstream_response) \<Rightarrow> upstream" where
  "session_request server follow call =
     (case server (prepared call) of
        Inl exn \<Rightarrow> Inl exn
      | Inr resp \<Rightarrow> if is_redirect resp then follow resp else Inr resp)"

subsection \<open>The \<open>Response\<close> object\<close>

text \<open>
  Assigning to a key of werkzeug's \<open>Headers\<close> replaces the first header of that name
  (compared without regard to case) where it stands and removes the later ones; a name
  that is not there is appended.
\<close>

fun headers_set :: "header_items \<Rightarrow> string \<Rightarrow> string \<Rightarrow> header_items" where
  "headers_set [] key value = [(key, value)]"
| "headers_set ((k, v) # hs) key value =
     (if lower k = lower key
      then (key, value) # filter (\<lambda>(k', v'). lower k' \<noteq> lower key) hs
      else (k, v) # headers_set hs key value)"

definition decimal :: "nat \<Rightarrow> string" where
  "decimal n = map char_of (str_nat n)"

text \<open>
  The object the view returns: its \<open>status_code\<close>, \<open>headers\<close> and \<open>data\<close>.
  \<open>Response(body, status=..., headers=...)\<close> copies the \<open>dict\<close> into its headers, sets
  \<open>Content-Type\<close> to the default of Flask's response class when no content type is
  among them, and, on storing the body, sets \<open>Content-Length\<close> to its length.
\<close>

record flask_response =
  rv_status_code :: int
  rv_headers :: header_items
  rv_data :: "byte list"

definition Response :: "relayed_response \<Rightarrow> flask_response" where
  "Response args =
     (let hs = response_headers args;
          hs = (if headers_getitem hs ''content-type'' = None
                then headers_set hs ''Content-Type'' ''text/html; charset=utf-8''
                else hs);
          hs = headers_set hs ''Content-Length'' (decimal (length (response args)))
      in \<lparr>rv_status_code = status args, rv_headers = hs, rv_data = response args\<rparr>)"

text \<open>What a run of the view hands back to Flask: the object, or the exception.\<close>

definition delivered :: "outcome \<Rightarrow> requests_exception + flask_response" where
  "delivered out = (case returned out of Inl exn \<Rightarrow> Inl exn | Inr args \<Rightarrow> Inr (Response args))"

subsection \<open>\<open>str.encode("utf-8")\<close>\<close>

text \<open>
  The octets that stand for one code point in UTF-8, used to say where the characters
  of a decoded text come from.
\<close>

definition utf8_encode_char :: "nat \<Rightarrow> nat list" where
  "utf8_encode_char c =
     (if c < 128 then [c]
      else if c < 2048 then [192 + c div 64, 128 + c mod 64]
      else if c < 65536 then [224 + c div 4096, 128 + c div 64 mod 64, 128 + c mod 64]
      else [240 + c div 262144, 128 + c div 4096 mod 64, 128 + c div 64 mod 64,
            128 + c mod 64])"

definition utf8_encode :: "pystr \<Rightarrow> byte list" where
  "utf8_encode s = map of_nat (concat (map utf8_encode_char s))"

section \<open>Scenarios\<close>

text \<open>
  A message sent through the relay: \<open>POST\<close> of the JSON body \<open>{"body":"hi"}\<close> with an
  \<open>Authorization\<close> header, and an upstream that answers 200 with a compressed body,
  or cannot be reached.
\<close>

definition scenario_path :: pystr where
  "scenario_path = ustr ''rooms/!abc:example.org/send/m.room.message/1''"

definition scenario_request :: inbound_request where
  "scenario_request =
     \<lparr>request_method = ustr ''POST'',
      request_url = ustr ''http://relay.local:5006/_matrix/client/v3/rooms/!abc:example.org/send/m.room.message/1?ts=1'',
      request_headers = [(''Host'', ''relay.local:5006''), (''Content-Length'', ''13''),
                         (''Authorization'', ''Bearer tok123'')],
      request_args = [(ustr ''ts'', ustr ''1'')],
      request_data = [0x7B, 0x22, 0x62, 0x6F, 0x64, 0x79, 0x22, 0x3A, 0x22, 0x68, 0x69,
                      0x22, 0x7D]\<rparr>"

definition scenario_response :: upstream_response where
  "scenario_response =
     \<lparr>resp_status_code = 200,
      resp_headers = [(''Content-Encoding'', ''gzip''), (''Content-Type'', ''application/json''),
                      (''CONNECTION'', ''keep-alive''), (''Content-Length'', ''22'')],
      resp_content = [0x7B, 0x7D],
      resp_text = ustr ''{}''\<rparr>"

text \<open>The same answer with a header name given twice.\<close>

definition cookie_response :: upstream_response where
  "cookie_response =
     scenario_response\<lparr>resp_headers :=
       [(''Set-Cookie'', ''a=1''), (''Transfer-Encoding'', ''chunked''),
        (''Content-Type'', ''application/json''), (''Set-Cookie'', ''b=2'')]\<rparr>"

definition answers :: "upstream_response \<Rightarrow> upstream" where
  "answers resp = (\<lambda>call. Inr resp)"

definition fails_with :: "requests_exception \<Rightarrow> upstream" where
  "fails_with exn = (\<lambda>call. Inl exn)"

text \<open>The same message with a query key given twice: \<open>?a=1&b=2&b=3\<close>.\<close>

definition multi_request :: inbound_request where
  "multi_request =
     scenario_request\<lparr>request_args :=
       [(ustr ''a'', ustr ''1''), (ustr ''b'', ustr ''2''), (ustr ''b'', ustr ''3'')]\<rparr>"

text \<open>An upstream that answers 200 when it is sent these three pairs, and 400 otherwise.\<close>

definition wants_all_pairs :: upstream where
  "wants_all_pairs =
     (\<lambda>call. if params call = request_args multi_request then Inr scenario_response
             else Inr (scenario_response\<lparr>resp_status_code := 400\<rparr>))"


text \<open>A redirect chain that ends with the given response.\<close>

definition ends_with ::
  "upstream_response \<Rightarrow> upstream_response \<Rightarrow> requests_exception + upstream_response" where
  "ends_with final = (\<lambda>resp. Inr final)"

text \<open>A body that is not UTF-8: the octet \<open>0xFF\<close> between \<open>a\<close> and \<open>b\<close>.\<close>

definition binary_request :: inbound_request where
  "binary_request =
     scenario_request\<lparr>request_headers := [], request_data := [0x61, 0xFF, 0x62]\<rparr>"

text \<open>An upstream that answers \<open>POST\<close> and times out on every other method.\<close>

definition post_only :: upstream where
  "post_only =
     (\<lambda>call. if http_method call = ustr ''POST'' then Inr scenario_response else Inl Timeout)"

section \<open>Properties of the building blocks\<close>

subsection \<open>Dictionaries\<close>

lemma keys_dict_setitem:
  "map fst (dict_setitem d k v) = (if k \<in> fst ` set d then map fst d else map fst d @ [k])"
  by (induction d k v rule: dict_setitem.induct) (auto simp: image_iff)

lemma distinct_dict_setitem:
  "distinct (map fst d) \<Longrightarrow> distinct (map fst (dict_setitem d k v))"
  by (simp add: keys_dict_setitem)

lemma set_dict_setitem:
  "set (dict_setitem d k v) \<subseteq> insert (k, v) (set d)"
  by (induction d k v rule: dict_setitem.induct) auto

lemma dict_setitem_fresh:
  "k \<notin> fst ` set d \<Longrightarrow> dict_setitem d k v = d @ [(k, v)]"
  by (induction d k v rule: dict_setitem.induct) auto

lemma names_dict_setitem:
  "fst ` set (dict_setitem d k v) = insert k (fst ` set d)"
proof -
  have "set (map fst (dict_setitem d k v)) = insert k (set (map fst d))"
    by (simp only: keys_dict_setitem) auto
  then show ?thesis by simp
qed

text \<open>\<open>dict(pairs)\<close>: the accumulator of the fold is generalised.\<close>

lemma distinct_foldl_pairs:
  "distinct (map fst d) \<Longrightarrow> distinct (map fst (foldl (\<lambda>d (k, v). dict_setitem d k v) d ps))"
  by (induction ps arbitrary: d) (auto simp: distinct_dict_setitem)

lemma names_foldl_pairs:
  "fst ` set (foldl (\<lambda>d (k, v). dict_setitem d k v) d ps) = fst ` set d \<union> fst ` set ps"
proof (induction ps arbitrary: d)
  case Nil show ?case by simp
next
  case (Cons p ps)
  obtain k v where p: "p = (k, v)" by (cases p)
  show ?case using Cons[of "dict_setitem d k v"]
    by (simp add: p names_dict_setitem)
qed

lemma set_foldl_pairs:
  "set (foldl (\<lambda>d (k, v). dict_setitem d k v) d ps) \<subseteq> set d \<union> set ps"
proof (induction ps arbitrary: d)
  case Nil show ?case by simp
next
  case (Cons p ps)
  obtain k v where p: "p = (k, v)" by (cases p)
  show ?case using Cons[of "dict_setitem d k v"] set_dict_setitem[of d k v]
    by (auto simp: p)
qed

lemma foldl_pairs_distinct:
  "distinct (map fst (d @ ps)) \<Longrightarrow> foldl (\<lambda>d (k, v). dict_setitem d k v) d ps = d @ ps"
proof (induction ps arbitrary: d)
  case Nil show ?case by simp
next
  case (Cons p ps)
  obtain k v where p: "p = (k, v)" by (cases p)
  from Cons.prems have fresh: "k \<notin> fst ` set d" and d': "distinct (map fst ((d @ [(k, v)]) @ ps))"
    by (auto simp: p)
  show ?case using Cons.IH[OF d'] by (simp add: p dict_setitem_fresh[OF fresh])
qed

lemma distinct_dict_of_pairs: "distinct (map fst (dict_of_pairs ps))"
  by (simp add: dict_of_pairs_def distinct_foldl_pairs)

lemma names_dict_of_pairs: "fst ` set (dict_of_pairs ps) = fst ` set ps"
  by (simp add: dict_of_pairs_def names_foldl_pairs)

lemma set_dict_of_pairs: "set (dict_of_pairs ps) \<subseteq> set ps"
  using set_foldl_pairs[of "[]" ps] by (simp add: dict_of_pairs_def)

lemma dict_of_pairs_distinct: "distinct (map fst ps) \<Longrightarrow> dict_of_pairs ps = ps"
  using foldl_pairs_distinct[of "[]" ps] by (simp add: dict_of_pairs_def)

text \<open>\<open>dict(request.headers)\<close>\<close>

lemma headers_getitem_present:
  "k \<in> fst ` set hs \<Longrightarrow> \<exists>v. headers_getitem hs k = Some v"
  by (induction hs) force+

lemma headers_getitem_own:
  "distinct (map (lower \<circ> fst) hs) \<Longrightarrow> (k, v) \<in> set hs \<Longrightarrow> headers_getitem hs k = Some v"
  by (induction hs) (auto simp: image_iff)

lemma distinct_foldl_names:
  "distinct (map fst d) \<Longrightarrow>
   distinct (map fst (foldl (\<lambda>d k. case headers_getitem hs k of Some v \<Rightarrow> dict_setitem d k v | None \<Rightarrow> d) d ks))"
  by (induction ks arbitrary: d) (auto simp: distinct_dict_setitem split: option.split)

lemma names_foldl_names:
  "set ks \<subseteq> fst ` set hs \<Longrightarrow>
   fst ` set (foldl (\<lambda>d k. case headers_getitem hs k of Some v \<Rightarrow> dict_setitem d k v | None \<Rightarrow> d) d ks)
     = fst ` set d \<union> set ks"
proof (induction ks arbitrary: d)
  case Nil show ?case by simp
next
  case (Cons k ks)
  from Cons.prems obtain v where v: "headers_getitem hs k = Some v"
    using headers_getitem_present[of k hs] by auto
  from Cons.prems have "set ks \<subseteq> fst ` set hs" by simp
  from Cons.IH[OF this, of "dict_setitem d k v"] show ?case
    by (simp add: v names_dict_setitem)
qed

lemma foldl_names_distinct:
  "\<forall>(k, v) \<in> set ps. headers_getitem hs k = Some v \<Longrightarrow> distinct (map fst (d @ ps)) \<Longrightarrow>
   foldl (\<lambda>d k. case headers_getitem hs k of Some v \<Rightarrow> dict_setitem d k v | None \<Rightarrow> d) d (map fst ps) = d @ ps"
proof (induction ps arbitrary: d)
  case Nil show ?case by simp
next
  case (Cons p ps)
  obtain k v where p: "p = (k, v)" by (cases p)
  from Cons.prems have v: "headers_getitem hs k = Some v" and rest: "\<forall>(k, v) \<in> set ps. headers_getitem hs k = Some v"
    by (auto simp: p)
  from Cons.prems have fresh: "k \<notin> fst ` set d" and d': "distinct (map fst ((d @ [(k, v)]) @ ps))"
    by (auto simp: p)
  show ?case using Cons.IH[OF rest d'] by (simp add: p v dict_setitem_fresh[OF fresh])
qed

lemma distinct_dict_of_headers: "distinct (map fst (dict_of_headers hs))"
  by (simp add: dict_of_headers_def distinct_foldl_names)

lemma names_dict_of_headers: "fst ` set (dict_of_headers hs) = fst ` set hs"
  using names_foldl_names[of "map fst hs" hs "[]"] by (simp add: dict_of_headers_def)

lemma distinct_lower_names: "distinct (map (lower \<circ> fst) hs) \<Longrightarrow> distinct (map fst hs)"
  by (metis distinct_map map_map)

lemma dict_of_headers_distinct:
  assumes "distinct (map (lower \<circ> fst) hs)"
  shows "dict_of_headers hs = hs"
proof -
  have "\<forall>(k, v) \<in> set hs. headers_getitem hs k = Some v"
    using headers_getitem_own[OF assms] by auto
  then show ?thesis
    using foldl_names_distinct[of hs hs "[]"] distinct_lower_names[OF assms]
    by (simp add: dict_of_headers_def)
qed

lemma forwarded_headers_filter:
  "forwarded_headers request =
     filter (\<lambda>(k, v). k \<noteq> ''Host'' \<and> k \<noteq> ''Content-Length'') (dict_of_headers (request_headers request))"
  by (auto simp: forwarded_headers_def dict_pop_def Let_def intro: filter_cong)

lemma one_entry_per_key:
  "distinct (map fst d) \<Longrightarrow> k \<in> fst ` set d \<Longrightarrow> length (filter (\<lambda>(k', v). k' = k) d) = 1"
proof (induction d)
  case Nil
  then show ?case by simp
next
  case (Cons p d)
  obtain k' v' where p: "p = (k', v')" by (cases p)
  show ?case
  proof (cases "k' = k")
    case True
    with Cons.prems have "k \<notin> fst ` set d" by (simp add: p)
    then have "filter (\<lambda>(k', v). k' = k) d = []" by (force simp: filter_empty_conv)
    with True show ?thesis by (simp add: p)
  next
    case False
    with Cons show ?thesis by (auto simp: p)
  qed
qed

lemma map_of_dict_setitem: "map_of (dict_setitem d k v) = (map_of d)(k \<mapsto> v)"
  by (induction d k v rule: dict_setitem.induct) auto

lemma map_of_foldl_pairs:
  "map_of (foldl (\<lambda>d (k, v). dict_setitem d k v) d ps) = map_of d ++ map_of (rev ps)"
proof (induction ps arbitrary: d)
  case Nil
  show ?case by simp
next
  case (Cons p ps)
  obtain k v where p: "p = (k, v)" by (cases p)
  have step: "map_of d ++ map_of (rev (p # ps)) = (map_of d)(k \<mapsto> v) ++ map_of (rev ps)"
    by (rule ext) (simp add: p map_add_def split: option.split)
  have "map_of (foldl (\<lambda>d (k, v). dict_setitem d k v) d (p # ps))
          = map_of (foldl (\<lambda>d (k, v). dict_setitem d k v) (dict_setitem d k v) ps)"
    by (simp add: p)
  also have "\<dots> = map_of (dict_setitem d k v) ++ map_of (rev ps)"
    by (rule Cons.IH)
  also have "\<dots> = (map_of d)(k \<mapsto> v) ++ map_of (rev ps)"
    by (simp only: map_of_dict_setitem)
  also have "\<dots> = map_of d ++ map_of (rev (p # ps))"
    by (rule step[symmetric])
  finally show ?case .
qed

subsection \<open>The decoder\<close>

lemma digits2:
  fixes x y n :: nat
  assumes "y < n"
  shows "(x * n + y) div n = x" and "(x * n + y) mod n = y"
  using assms by simp_all

lemma digits3:
  fixes x y z n :: nat
  assumes "y < n" "z < n"
  shows "((x * n + y) * n + z) div (n * n) = x"
    and "((x * n + y) * n + z) div n mod n = y"
    and "((x * n + y) * n + z) mod n = z"
proof -
  have d: "((x * n + y) * n + z) div n = x * n + y" using assms by simp
  show "((x * n + y) * n + z) div (n * n) = x"
    using assms by (simp only: div_mult2_eq d digits2)
  show "((x * n + y) * n + z) div n mod n = y"
    using assms by (simp only: d digits2)
  show "((x * n + y) * n + z) mod n = z"
    using assms by simp
qed

lemma digits4:
  fixes x y z w n :: nat
  assumes "y < n" "z < n" "w < n"
  shows "(((x * n + y) * n + z) * n + w) div (n * n * n) = x"
    and "(((x * n + y) * n + z) * n + w) div (n * n) mod n = y"
    and "(((x * n + y) * n + z) * n + w) div n mod n = z"
    and "(((x * n + y) * n + z) * n + w) mod n = w"
proof -
  have d: "(((x * n + y) * n + z) * n + w) div n = (x * n + y) * n + z" using assms by simp
  have d2: "(((x * n + y) * n + z) * n + w) div (n * n) = x * n + y"
    using assms by (simp only: div_mult2_eq d digits2)
  have "(((x * n + y) * n + z) * n + w) div (n * n * n) = (x * n + y) div n"
    by (simp only: div_mult2_eq[of _ "n * n" n] d2)
  then show "(((x * n + y) * n + z) * n + w) div (n * n * n) = x"
    using assms by (simp only: digits2)
  show "(((x * n + y) * n + z) * n + w) div (n * n) mod n = y"
    using assms by (simp only: d2 digits2)
  show "(((x * n + y) * n + z) * n + w) div n mod n = z"
    using assms by (simp only: d digits2)
  show "(((x * n + y) * n + z) * n + w) mod n = w"
    using assms by simp
qed


lemma encode2:
  assumes "194 \<le> b1" "b1 < 224" "is_continuation b2"
  shows "utf8_encode_char ((b1 - 192) * 64 + (b2 - 128)) = [b1, b2]"
proof -
  define x y where "x = b1 - 192" and "y = b2 - 128"
  have b: "b1 = 192 + x" "b2 = 128 + y" and r: "2 \<le> x" "x < 32" "y < 64"
    using assms by (auto simp: x_def y_def is_continuation_def)
  have lo: "128 \<le> x * 64 + y" and hi: "x * 64 + y < 2048" using r by linarith+
  have "utf8_encode_char (x * 64 + y) = [192 + (x * 64 + y) div 64, 128 + (x * 64 + y) mod 64]"
    using lo hi by (simp add: utf8_encode_char_def)
  also have "\<dots> = [192 + x, 128 + y]"
    using digits2[of y 64 x] r by (simp only:)
  finally show ?thesis by (simp only: b add_diff_cancel_left')
qed

lemma encode3:
  assumes "224 \<le> b1" "b1 < 240" "is_continuation b2" "is_continuation b3"
    and "\<not> (if b2 < 160 then b1 = 224 else b1 = 237)"
  shows "utf8_encode_char ((b1 - 224) * 4096 + (b2 - 128) * 64 + (b3 - 128)) = [b1, b2, b3]"
proof -
  define x y z where "x = b1 - 224" and "y = b2 - 128" and "z = b3 - 128"
  have b: "b1 = 224 + x" "b2 = 128 + y" "b3 = 128 + z" and r: "x < 16" "y < 64" "z < 64"
    using assms by (auto simp: x_def y_def z_def is_continuation_def)
  have big: "x = 0 \<longrightarrow> 32 \<le> y"
    using assms(5) b by (auto split: if_splits)
  define c where "c = (x * 64 + y) * 64 + z"
  have c: "x * 4096 + y * 64 + z = c" by (simp add: c_def)
  have lo: "2048 \<le> c" using big r unfolding c_def by (cases "x = 0") simp_all
  have hi: "c < 65536" using r unfolding c_def by simp
  have "utf8_encode_char c = [224 + c div (64 * 64), 128 + c div 64 mod 64, 128 + c mod 64]"
    using lo hi by (simp add: utf8_encode_char_def)
  also have "\<dots> = [224 + x, 128 + y, 128 + z]"
    unfolding c_def using digits3[of y 64 z x] r by (simp only:)
  finally show ?thesis by (simp only: b add_diff_cancel_left' c)
qed

lemma encode4:
  assumes "240 \<le> b1" "b1 < 245" "is_continuation b2" "is_continuation b3" "is_continuation b4"
    and "\<not> (if b2 < 144 then b1 = 240 else b1 = 244)"
  shows "utf8_encode_char ((b1 - 240) * 262144 + (b2 - 128) * 4096 + (b3 - 128) * 64 + (b4 - 128))
           = [b1, b2, b3, b4]"
proof -
  define x y z w where "x = b1 - 240" and "y = b2 - 128" and "z = b3 - 128" and "w = b4 - 128"
  have b: "b1 = 240 + x" "b2 = 128 + y" "b3 = 128 + z" "b4 = 128 + w"
    and r: "x < 5" "y < 64" "z < 64" "w < 64"
    using assms by (auto simp: x_def y_def z_def w_def is_continuation_def)
  have big: "x = 0 \<longrightarrow> 16 \<le> y"
    using assms(6) b by (auto split: if_splits)
  define c where "c = ((x * 64 + y) * 64 + z) * 64 + w"
  have c: "x * 262144 + y * 4096 + z * 64 + w = c" by (simp add: c_def)
  have lo: "65536 \<le> c" using big r unfolding c_def by (cases "x = 0") simp_all
  have "utf8_encode_char c =
          [240 + c div (64 * 64 * 64), 128 + c div (64 * 64) mod 64, 128 + c div 64 mod 64,
           128 + c mod 64]"
    using lo by (simp add: utf8_encode_char_def)
  also have "\<dots> = [240 + x, 128 + y, 128 + z, 128 + w]"
    unfolding c_def using digits4[of y 64 z w x] r by (simp only:)
  finally show ?thesis by (simp only: b add_diff_cancel_left' c)
qed


declare utf8_ignore.simps(2) [simp del]

lemma ignore_ascii: "b1 < 128 \<Longrightarrow> utf8_ignore (b1 # rest) = b1 # utf8_ignore rest"
  by (subst utf8_ignore.simps(2)) simp

lemma ignore_lead: "128 \<le> b1 \<Longrightarrow> b1 < 194 \<or> 245 \<le> b1 \<Longrightarrow> utf8_ignore (b1 # rest) = utf8_ignore rest"
  by (subst utf8_ignore.simps(2)) auto

lemma ignore_cut1: "194 \<le> b1 \<Longrightarrow> b1 < 245 \<Longrightarrow> utf8_ignore [b1] = []"
  by (subst utf8_ignore.simps(2)) simp

lemma ignore_two:
  "194 \<le> b1 \<Longrightarrow> b1 < 224 \<Longrightarrow>
   utf8_ignore (b1 # b2 # r2) =
     (if is_continuation b2 then ((b1 - 192) * 64 + (b2 - 128)) # utf8_ignore r2
      else utf8_ignore (b2 # r2))"
  by (subst utf8_ignore.simps(2)[of b1 "b2 # r2"]) simp

lemma ignore_three_bad:
  "224 \<le> b1 \<Longrightarrow> b1 < 240 \<Longrightarrow>
   \<not> is_continuation b2 \<or> (if b2 < 160 then b1 = 224 else b1 = 237) \<Longrightarrow>
   utf8_ignore (b1 # b2 # r2) = utf8_ignore (b2 # r2)"
  by (subst utf8_ignore.simps(2)[of b1 "b2 # r2"]) (auto split: if_splits)

lemma ignore_three_cut:
  "224 \<le> b1 \<Longrightarrow> b1 < 240 \<Longrightarrow>
   \<not> (\<not> is_continuation b2 \<or> (if b2 < 160 then b1 = 224 else b1 = 237)) \<Longrightarrow>
   utf8_ignore [b1, b2] = []"
  by (subst utf8_ignore.simps(2)[of b1 "[b2]"]) simp

lemma ignore_three:
  "224 \<le> b1 \<Longrightarrow> b1 < 240 \<Longrightarrow>
   \<not> (\<not> is_continuation b2 \<or> (if b2 < 160 then b1 = 224 else b1 = 237)) \<Longrightarrow>
   utf8_ignore (b1 # b2 # b3 # r3) =
     (if is_continuation b3
      then ((b1 - 224) * 4096 + (b2 - 128) * 64 + (b3 - 128)) # utf8_ignore r3
      else utf8_ignore (b3 # r3))"
  by (subst utf8_ignore.simps(2)[of b1 "b2 # b3 # r3"]) simp

lemma ignore_four_bad:
  "240 \<le> b1 \<Longrightarrow> b1 < 245 \<Longrightarrow>
   \<not> is_continuation b2 \<or> (if b2 < 144 then b1 = 240 else b1 = 244) \<Longrightarrow>
   utf8_ignore (b1 # b2 # r2) = utf8_ignore (b2 # r2)"
  by (subst utf8_ignore.simps(2)[of b1 "b2 # r2"]) (auto split: if_splits)

lemma ignore_four_cut2:
  "240 \<le> b1 \<Longrightarrow> b1 < 245 \<Longrightarrow>
   \<not> (\<not> is_continuation b2 \<or> (if b2 < 144 then b1 = 240 else b1 = 244)) \<Longrightarrow>
   utf8_ignore [b1, b2] = []"
  by (subst utf8_ignore.simps(2)[of b1 "[b2]"]) simp

lemma ignore_four_bad3:
  "240 \<le> b1 \<Longrightarrow> b1 < 245 \<Longrightarrow>
   \<not> (\<not> is_continuation b2 \<or> (if b2 < 144 then b1 = 240 else b1 = 244)) \<Longrightarrow>
   \<not> is_continuation b3 \<Longrightarrow>
   utf8_ignore (b1 # b2 # b3 # r3) = utf8_ignore (b3 # r3)"
  by (subst utf8_ignore.simps(2)[of b1 "b2 # b3 # r3"]) simp

lemma ignore_four_cut3:
  "240 \<le> b1 \<Longrightarrow> b1 < 245 \<Longrightarrow>
   \<not> (\<not> is_continuation b2 \<or> (if b2 < 144 then b1 = 240 else b1 = 244)) \<Longrightarrow>
   is_continuation b3 \<Longrightarrow>
   utf8_ignore [b1, b2, b3] = []"
  by (subst utf8_ignore.simps(2)[of b1 "[b2, b3]"]) simp

lemma ignore_four:
  "240 \<le> b1 \<Longrightarrow> b1 < 245 \<Longrightarrow>
   \<not> (\<not> is_continuation b2 \<or> (if b2 < 144 then b1 = 240 else b1 = 244)) \<Longrightarrow>
   is_continuation b3 \<Longrightarrow>
   utf8_ignore (b1 # b2 # b3 # b4 # r4) =
     (if is_continuation b4
      then ((b1 - 240) * 262144 + (b2 - 128) * 4096 + (b3 - 128) * 64 + (b4 - 128))
             # utf8_ignore r4
      else utf8_ignore (b4 # r4))"
  by (subst utf8_ignore.simps(2)[of b1 "b2 # b3 # b4 # r4"]) simp


lemma encode_ascii: "b < 128 \<Longrightarrow> utf8_encode_char b = [b]"
  by (simp add: utf8_encode_char_def)

lemma utf8_ignore_subseq:
  "subseq (concat (map utf8_encode_char (utf8_ignore ns))) ns"
proof (induction ns rule: length_induct)
  case (1 ns)
  note IH = "1.IH"[rule_format]
  show ?case
  proof (cases ns)
    case Nil
    then show ?thesis by simp
  next
    case ns: (Cons b1 rest)
    have rest: "subseq (concat (map utf8_encode_char (utf8_ignore rest))) rest"
      by (rule IH) (simp add: ns)
    consider (ascii) "b1 < 128" | (lead) "128 \<le> b1" "b1 < 194 \<or> 245 \<le> b1"
      | (two) "194 \<le> b1" "b1 < 224" | (three) "224 \<le> b1" "b1 < 240"
      | (four) "240 \<le> b1" "b1 < 245"
      by linarith
    then show ?thesis
    proof cases
      case ascii
      then show ?thesis using rest by (simp add: ns ignore_ascii encode_ascii)
    next
      case lead
      then show ?thesis using rest by (simp add: ns ignore_lead list_emb_Cons)
    next
      case two
      show ?thesis
      proof (cases rest)
        case Nil
        then show ?thesis using two by (simp add: ns ignore_cut1)
      next
        case r: (Cons b2 r2)
        have r2: "subseq (concat (map utf8_encode_char (utf8_ignore r2))) r2"
          by (rule IH) (simp add: ns r)
        show ?thesis
        proof (cases "is_continuation b2")
          case True
          then show ?thesis using two r2 by (simp add: ns r ignore_two encode2)
        next
          case False
          then show ?thesis using two rest by (simp add: ns r ignore_two list_emb_Cons)
        qed
      qed
    next
      case three
      show ?thesis
      proof (cases rest)
        case Nil
        then show ?thesis using three by (simp add: ns ignore_cut1)
      next
        case r: (Cons b2 r2)
        show ?thesis
        proof (cases "\<not> is_continuation b2 \<or> (if b2 < 160 then b1 = 224 else b1 = 237)")
          case True
          have "utf8_ignore (b1 # b2 # r2) = utf8_ignore (b2 # r2)"
            using three True by (rule ignore_three_bad)
          then show ?thesis using rest by (simp add: ns r list_emb_Cons)
        next
          case ok: False
          show ?thesis
          proof (cases r2)
            case Nil
            have "utf8_ignore [b1, b2] = []" using three ok by (rule ignore_three_cut)
            then show ?thesis by (simp add: ns r Nil)
          next
            case r': (Cons b3 r3)
            have r2: "subseq (concat (map utf8_encode_char (utf8_ignore r2))) r2"
              by (rule IH) (simp add: ns r)
            have r3: "subseq (concat (map utf8_encode_char (utf8_ignore r3))) r3"
              by (rule IH) (simp add: ns r r')
            show ?thesis
            proof (cases "is_continuation b3")
              case True
              have "utf8_encode_char ((b1 - 224) * 4096 + (b2 - 128) * 64 + (b3 - 128)) = [b1, b2, b3]"
                using three ok True by (intro encode3) auto
              then show ?thesis using three ok True r3 by (simp add: ns r r' ignore_three)
            next
              case False
              have "utf8_ignore (b1 # b2 # b3 # r3) = utf8_ignore (b3 # r3)"
                using ignore_three[OF three ok, of b3 r3] False by simp
              then show ?thesis using r2 by (simp add: ns r r' list_emb_Cons)
            qed
          qed
        qed
      qed
    next
      case four
      show ?thesis
      proof (cases rest)
        case Nil
        then show ?thesis using four by (simp add: ns ignore_cut1)
      next
        case r: (Cons b2 r2)
        show ?thesis
        proof (cases "\<not> is_continuation b2 \<or> (if b2 < 144 then b1 = 240 else b1 = 244)")
          case True
          have "utf8_ignore (b1 # b2 # r2) = utf8_ignore (b2 # r2)"
            using four True by (rule ignore_four_bad)
          then show ?thesis using rest by (simp add: ns r list_emb_Cons)
        next
          case ok: False
          have r2: "subseq (concat (map utf8_encode_char (utf8_ignore r2))) r2"
            by (rule IH) (simp add: ns r)
          show ?thesis
          proof (cases r2)
            case Nil
            have "utf8_ignore [b1, b2] = []" using four ok by (rule ignore_four_cut2)
            then show ?thesis by (simp add: ns r Nil)
          next
            case r': (Cons b3 r3)
            show ?thesis
            proof (cases "is_continuation b3")
              case False
              have "utf8_ignore (b1 # b2 # b3 # r3) = utf8_ignore (b3 # r3)"
                using four ok False by (rule ignore_four_bad3)
              then show ?thesis using r2 by (simp add: ns r r' list_emb_Cons)
            next
              case c3: True
              show ?thesis
              proof (cases r3)
                case Nil
                have "utf8_ignore [b1, b2, b3] = []" using four ok c3 by (rule ignore_four_cut3)
                then show ?thesis by (simp add: ns r r' Nil)
              next
                case r'': (Cons b4 r4)
                have r3: "subseq (concat (map utf8_encode_char (utf8_ignore r3))) r3"
                  by (rule IH) (simp add: ns r r')
                have r4: "subseq (concat (map utf8_encode_char (utf8_ignore r4))) r4"
                  by (rule IH) (simp add: ns r r' r'')
                show ?thesis
                proof (cases "is_continuation b4")
                  case True
                  have "utf8_encode_char
                          ((b1 - 240) * 262144 + (b2 - 128) * 4096 + (b3 - 128) * 64 + (b4 - 128))
                        = [b1, b2, b3, b4]"
                    using four ok c3 True by (intro encode4) auto
                  then show ?thesis using four ok c3 True r4
                    by (simp add: ns r r' r'' ignore_four)
                next
                  case False
                  have "utf8_ignore (b1 # b2 # b3 # b4 # r4) = utf8_ignore (b4 # r4)"
                    using ignore_four[OF four ok c3, of b4 r4] False by simp
                  then show ?thesis using r3 by (simp add: ns r r' r'' list_emb_Cons)
                qed
              qed
            qed
          qed
        qed
      qed
    qed
  qed
qed

lemma decode_subseq: "subseq (utf8_encode (decode_utf8_ignore bs)) bs"
proof -
  have "subseq (map (of_nat :: nat \<Rightarrow> byte) (concat (map utf8_encode_char (utf8_ignore (map unat bs)))))
          (map of_nat (map unat bs))"
    by (rule subseq_map) (rule utf8_ignore_subseq)
  then show ?thesis by (simp add: utf8_encode_def decode_utf8_ignore_def comp_def)
qed

subsection \<open>Header names as Flask presents them\<close>

lemma lower_char_ascii: "(of_char (lower_char c) :: nat) < 128 \<Longrightarrow> (of_char c :: nat) < 128"
  by (auto simp: lower_char_def Let_def split: if_splits)

lemma lower_lower_char: "lower_char (lower_char c) = lower_char c"
  by (auto simp: lower_char_def Let_def)

lemma upper_lower_char: "(of_char c :: nat) < 128 \<Longrightarrow> upper_char (lower_char c) = upper_char c"
  by (auto simp: lower_char_def upper_char_def is_ascii_lower_def Let_def char_of_eq_iff take_bit_eq_mod)

lemma cased_lower_char:
  "(of_char c :: nat) < 128 \<Longrightarrow>
   (is_ascii_upper (lower_char c) \<or> is_ascii_lower (lower_char c)) = (is_ascii_upper c \<or> is_ascii_lower c)"
  by (auto simp: lower_char_def is_ascii_upper_def is_ascii_lower_def Let_def)

lemma title_from_lower: "ascii s \<Longrightarrow> title_from p (lower s) = title_from p s"
  by (induction s arbitrary: p)
     (simp_all add: lower_def ascii_def lower_lower_char upper_lower_char cased_lower_char)

lemma ascii_of_lower: "ascii (lower s) \<Longrightarrow> ascii s"
  by (induction s) (auto simp: ascii_def lower_def dest: lower_char_ascii)

lemma canonical_name:
  assumes "k = title k" and "lower k = l" and "ascii l"
  shows "k = title l"
proof -
  have "ascii k" using assms(2,3) ascii_of_lower by blast
  then have "title (lower k) = title k" by (simp add: title_def title_from_lower)
  with assms show ?thesis by simp
qed

lemma host_names:
  "title ''host'' = ''Host''" "title ''content-length'' = ''Content-Length''"
  "lower ''Host'' = ''host''" "lower ''Content-Length'' = ''content-length''"
  "ascii ''host''" "ascii ''content-length''"
  by code_simp+

lemma flask_name_host:
  assumes "flask_headers hs" and "(k, v) \<in> set hs"
  shows "lower k \<noteq> ''host'' \<and> lower k \<noteq> ''content-length''
           \<longleftrightarrow> k \<noteq> ''Host'' \<and> k \<noteq> ''Content-Length''"
proof -
  from assms have t: "k = title k"
    by (auto simp: flask_headers_def list_all_iff)
  show ?thesis
    using canonical_name[OF t, of "''host''"] canonical_name[OF t, of "''content-length''"] host_names
    by auto
qed

subsection \<open>The view\<close>

lemma proxy_sent: "sent (fst (proxy g u request path)) = upstream_call g request path"
  by (simp add: proxy_def Let_def split: sum.split)

lemma proxy_globals: "snd (proxy g u request path) = g"
  by (simp add: proxy_def Let_def split: sum.split)

lemma proxy_Inl:
  "u (upstream_call g request path) = Inl exn \<Longrightarrow>
   fst (proxy g u request path) =
     \<lparr>printed = incoming_log g request path, sent = upstream_call g request path,
      returned = Inl exn\<rparr>"
  by (simp add: proxy_def Let_def)

lemma proxy_Inr:
  "u (upstream_call g request path) = Inr resp \<Longrightarrow>
   fst (proxy g u request path) =
     \<lparr>printed = incoming_log g request path @ response_log resp,
      sent = upstream_call g request path, returned = Inr (relay resp)\<rparr>"
  by (simp add: proxy_def Let_def)

lemma incoming_log_printed:
  "\<exists>ls. printed (fst (proxy g u request path)) = incoming_log g request path @ ls"
  by (cases "u (upstream_call g request path)") (simp_all add: proxy_Inl proxy_Inr)

lemma serve_independent:
  "serve g rs = (map (\<lambda>(u, request, path). fst (proxy g u request path)) rs, g)"
proof (induction rs)
  case Nil
  show ?case by simp
next
  case (Cons r rs)
  obtain u request path where r: "r = (u, request, path)" by (cases r)
  obtain out where out: "proxy g u request path = (out, g)"
    by (metis proxy_globals prod.collapse)
  show ?case using Cons by (simp add: r out)
qed

subsection \<open>The libraries around the view\<close>

lemma proxy_returned:
  "returned (fst (proxy g u request path)) =
     (case u (upstream_call g request path) of Inl exn \<Rightarrow> Inl exn | Inr resp \<Rightarrow> Inr (relay resp))"
  by (simp add: proxy_def Let_def split: sum.split)

lemma headers_getitem_None:
  "headers_getitem hs key = None \<longleftrightarrow> (\<forall>(k, v) \<in> set hs. lower k \<noteq> lower key)"
  by (induction hs) (auto split: if_splits)

lemma headers_set_absent:
  "\<forall>(k, v) \<in> set hs. lower k \<noteq> lower key \<Longrightarrow> headers_set hs key value = hs @ [(key, value)]"
  by (induction hs) auto

lemma framework_names:
  "lower ''content-type'' = ''content-type''" "lower ''Content-Type'' = ''content-type''"
  "lower ''Content-Length'' = ''content-length''"
  "''content-type'' \<notin> set excluded_headers" "''content-length'' \<in> set excluded_headers"
  "''content-type'' \<noteq> ''content-length''"
  by code_simp+

lemma kept_headers_filter:
  "kept_headers resp =
     filter (\<lambda>(k, v). lower k \<notin> {''content-encoding'', ''content-length'', ''transfer-encoding'',
                                  ''connection''}) (resp_headers resp)"
  by (simp add: kept_headers_def excluded_headers_def)

lemma Response_relay:
  "Response (relay resp) =
     \<lparr>rv_status_code = resp_status_code resp,
      rv_headers = dict_of_pairs (kept_headers resp)
        @ (if \<exists>k \<in> fst ` set (resp_headers resp). lower k = ''content-type'' then []
           else [(''Content-Type'', ''text/html; charset=utf-8'')])
        @ [(''Content-Length'', decimal (length (resp_content resp)))],
      rv_data = resp_content resp\<rparr>"
proof -
  let ?D = "dict_of_pairs (kept_headers resp)"
  have names: "fst ` set ?D = {k \<in> fst ` set (resp_headers resp). lower k \<notin> set excluded_headers}"
    unfolding names_dict_of_pairs kept_headers_def by force
  have ct: "headers_getitem ?D ''content-type'' = None
              \<longleftrightarrow> \<not> (\<exists>k \<in> fst ` set (resp_headers resp). lower k = ''content-type'')"
  proof -
    have "headers_getitem ?D ''content-type'' = None
            \<longleftrightarrow> (\<forall>k \<in> fst ` set ?D. lower k \<noteq> ''content-type'')"
      unfolding headers_getitem_None by (force simp: framework_names)
    also have "\<dots> \<longleftrightarrow> \<not> (\<exists>k \<in> fst ` set (resp_headers resp). lower k = ''content-type'')"
      unfolding names using framework_names(4) by auto
    finally show ?thesis .
  qed
  have nolen: "\<forall>k \<in> fst ` set ?D. lower k \<noteq> ''content-length''"
    unfolding names using framework_names(5) by auto
  define H where "H = (if headers_getitem ?D ''content-type'' = None
                       then headers_set ?D ''Content-Type'' ''text/html; charset=utf-8''
                       else ?D)"
  have H: "H = ?D @ (if \<exists>k \<in> fst ` set (resp_headers resp). lower k = ''content-type'' then []
                     else [(''Content-Type'', ''text/html; charset=utf-8'')])"
  proof (cases "\<exists>k \<in> fst ` set (resp_headers resp). lower k = ''content-type''")
    case True
    with ct have "headers_getitem ?D ''content-type'' \<noteq> None" by blast
    then have "H = ?D" unfolding H_def by (rule if_not_P)
    with True show ?thesis by simp
  next
    case False
    with ct have "headers_getitem ?D ''content-type'' = None" by blast
    then have "H = headers_set ?D ''Content-Type'' ''text/html; charset=utf-8''"
      unfolding H_def by (rule if_P)
    also have "\<dots> = ?D @ [(''Content-Type'', ''text/html; charset=utf-8'')]"
      by (rule headers_set_absent) (use False names in \<open>force simp: framework_names\<close>)
    finally show ?thesis using False by simp
  qed
  have "\<forall>(k, v) \<in> set H. lower k \<noteq> lower ''Content-Length''"
    unfolding H using nolen by (auto simp: framework_names split: if_splits)
  then have "headers_set H ''Content-Length'' (decimal (length (resp_content resp)))
               = H @ [(''Content-Length'', decimal (length (resp_content resp)))]"
    by (rule headers_set_absent)
  moreover have "Response (relay resp) =
     \<lparr>rv_status_code = resp_status_code resp,
      rv_headers = headers_set H ''Content-Length'' (decimal (length (resp_content resp))),
      rv_data = resp_content resp\<rparr>"
    by (simp add: Response_def relay_def Let_def H_def)
  ultimately show ?thesis by (simp only: H append_assoc)
qed

lemma delivered_Inr:
  "u (upstream_call g request path) = Inr resp \<Longrightarrow>
   delivered (fst (proxy g u request path)) = Inr (Response (relay resp))"
  by (simp add: delivered_def proxy_returned)

lemma session_request_plain:
  "server (prepared call) = Inr resp \<Longrightarrow> \<not> is_redirect resp \<Longrightarrow>
   session_request server follow call = Inr resp"
  by (simp add: session_request_def)

lemma forwarded_headers_flask:
  assumes "flask_headers (request_headers request)"
  shows "forwarded_headers request =
           filter (\<lambda>(k, v). lower k \<noteq> ''host'' \<and> lower k \<noteq> ''content-length'')
             (request_headers request)"
proof -
  have d: "distinct (map (lower \<circ> fst) (request_headers request))"
    using assms by (simp add: flask_headers_def)
  have "filter (\<lambda>(k, v). k \<noteq> ''Host'' \<and> k \<noteq> ''Content-Length'') (request_headers request)
          = filter (\<lambda>(k, v). lower k \<noteq> ''host'' \<and> lower k \<noteq> ''content-length'')
              (request_headers request)"
    by (rule filter_cong) (use flask_name_host[OF assms] in auto)
  then show ?thesis
    by (simp add: forwarded_headers_filter dict_of_headers_distinct[OF d])
qed

lemma multidict_items_distinct: "distinct (map fst ps) \<Longrightarrow> multidict_items ps = ps"
proof (induction ps)
  case Nil
  show ?case by simp
next
  case (Cons p ps)
  obtain k v where p: "p = (k, v)" by (cases p)
  from Cons.prems have "filter (\<lambda>(k', v'). k' \<noteq> k) ps = ps"
    by (force simp: p filter_id_conv)
  with Cons show ?case by (simp add: p)
qed

lemma proxy_over_server:
  "returned (fst (proxy g (session_request server follow) request path)) =
     (case server (prepared (upstream_call g request path)) of
        Inl exn \<Rightarrow> Inl exn
      | Inr resp \<Rightarrow>
          if is_redirect resp
          then (case follow resp of Inl exn \<Rightarrow> Inl exn | Inr final \<Rightarrow> Inr (relay final))
          else Inr (relay resp))"
  by (simp add: proxy_returned session_request_def split: sum.split)

section \<open>The claims\<close>

subsection \<open>C1: a transport failure of the upstream call\<close>

text \<open>
  C1 says that a failure of the upstream call at the transport level is caught in the
  relay and turned into an HTTP error response. The view has no handler: when the
  upstream cannot be reached, what leaves \<open>proxy\<close> is the exception, not a response.
\<close>

theorem transport_failure_not_caught:
  "returned (fst (proxy initial_globals (fails_with ConnectionError) scenario_request scenario_path))
     = Inl ConnectionError"
  by (simp add: proxy_def fails_with_def)

text \<open>
  C1, as the code has it: when the upstream call fails at the transport level, the same
  failure leaves \<open>proxy\<close> as its outcome; no response is built, and the log holds the
  incoming block only.
\<close>

theorem transport_failure_leaves_proxy:
  assumes "u (upstream_call g request path) = Inl exn"
  shows "returned (fst (proxy g u request path)) = Inl exn
     \<and> printed (fst (proxy g u request path)) = incoming_log g request path"
  using assms by (simp add: proxy_Inl)

theorem transport_failure_leaves_proxy_witness:
  "fails_with Timeout (upstream_call initial_globals scenario_request scenario_path) = Inl Timeout
   \<and> returned (fst (proxy initial_globals (fails_with Timeout) scenario_request scenario_path))
       = Inl Timeout
   \<and> printed (fst (proxy initial_globals (fails_with Timeout) scenario_request scenario_path))
       = incoming_log initial_globals scenario_request scenario_path"
proof -
  have h: "fails_with Timeout (upstream_call initial_globals scenario_request scenario_path) = Inl Timeout"
    by (simp add: fails_with_def)
  from transport_failure_leaves_proxy[where u = "fails_with Timeout" and g = initial_globals
      and request = scenario_request and path = scenario_path and exn = Timeout, OF h] h
  show ?thesis by simp
qed

subsection \<open>C2: what is forwarded\<close>



subsection \<open>C3: the two headers removed from the request\<close>

text \<open>
  C3: for every inbound request, whatever the spelling on the wire (Flask presents the
  names in title case) and whether or not the inbound set contained them, the headers
  the view gives to \<open>requests.request\<close> hold no header whose name is \<open>host\<close> or
  \<open>content-length\<close> in any case, and exactly these two are removed: the names given
  are the inbound names that are neither, and every header given is an inbound header;
  and this call is the one made.
\<close>

theorem host_and_length_removed:
  assumes "flask_headers (request_headers request)"
  shows "(\<forall>(k, v) \<in> set (headers (sent (fst (proxy g u request path)))).
            lower k \<noteq> ''host'' \<and> lower k \<noteq> ''content-length'')
     \<and> fst ` set (headers (sent (fst (proxy g u request path))))
         = {k \<in> fst ` set (request_headers request).
              lower k \<noteq> ''host'' \<and> lower k \<noteq> ''content-length''}
     \<and> set (headers (sent (fst (proxy g u request path)))) \<subseteq> set (request_headers request)
     \<and> returned (fst (proxy g u request path))
         = (case u (sent (fst (proxy g u request path))) of
              Inl exn \<Rightarrow> Inl exn
            | Inr resp \<Rightarrow> Inr (relay resp))"
proof -
  have h: "headers (sent (fst (proxy g u request path)))
         = filter (\<lambda>(k, v). lower k \<noteq> ''host'' \<and> lower k \<noteq> ''content-length'')
             (request_headers request)"
    using forwarded_headers_flask[OF assms] by (simp add: proxy_sent upstream_call_def)
  have "fst ` set (filter (\<lambda>(k, v). lower k \<noteq> ''host'' \<and> lower k \<noteq> ''content-length'')
             (request_headers request))
         = {k \<in> fst ` set (request_headers request).
              lower k \<noteq> ''host'' \<and> lower k \<noteq> ''content-length''}"
    by force
  then show ?thesis unfolding h by (auto simp: proxy_sent proxy_returned)
qed

theorem host_and_length_removed_witness:
  "flask_headers (request_headers scenario_request)
   \<and> (''Host'', ''relay.local:5006'') \<in> set (request_headers scenario_request)
   \<and> (''Content-Length'', ''13'') \<in> set (request_headers scenario_request)
   \<and> fst ` set (headers (sent (fst (proxy initial_globals (fails_with Timeout)
                                     scenario_request scenario_path))))
       = {''Authorization''}
   \<and> returned (fst (proxy initial_globals (fails_with Timeout) scenario_request scenario_path))
       = Inl Timeout"
proof -
  have h: "flask_headers (request_headers scenario_request)"
    by code_simp
  have n: "{k \<in> fst ` set (request_headers scenario_request).
              lower k \<noteq> ''host'' \<and> lower k \<noteq> ''content-length''} = {''Authorization''}"
  proof -
    have l: "lower ''Host'' = ''host''" "lower ''Content-Length'' = ''content-length''"
      "lower ''Authorization'' = ''authorization''"
      by code_simp+
    show ?thesis by (auto simp: scenario_request_def l)
  qed
  note t = host_and_length_removed[where request = scenario_request and g = initial_globals
      and u = "fails_with Timeout" and path = scenario_path, OF h, unfolded n]
  then show ?thesis using h by (simp add: fails_with_def scenario_request_def)
qed

subsection \<open>C4: the four headers removed from the response\<close>

text \<open>
  C4 says that the response delivered to the caller holds no \<open>content-length\<close> header.
  The upstream's own is removed, but the \<open>Response\<close> object the view returns carries
  the \<open>Content-Length\<close> the framework sets from the relayed body.
\<close>

theorem framework_sets_content_length:
  "map_sum id rv_headers
     (delivered (fst (proxy initial_globals (answers scenario_response)
                        scenario_request scenario_path)))
     = Inr [(''Content-Type'', ''application/json''), (''Content-Length'', ''2'')]"
  by code_simp

text \<open>
  C4, as the code has it: whatever the case in which the upstream spelled them, the
  response the view returns holds none of the upstream's \<open>content-encoding\<close>,
  \<open>content-length\<close>, \<open>transfer-encoding\<close> and \<open>connection\<close> headers, and these four
  are the only upstream names removed. The one \<open>Content-Length\<close> it holds is the
  framework's, the length of the relayed body; when the upstream gave no content type
  the framework's default \<open>Content-Type\<close> is added; every other header of the response
  is a header of the upstream, and with distinct upstream names they stand in the
  upstream's order, before the framework's.
\<close>

theorem response_headers_filtered:
  assumes "u (upstream_call g request path) = Inr resp"
  shows "\<exists>r. delivered (fst (proxy g u request path)) = Inr r
     \<and> (\<forall>(k, v) \<in> set (rv_headers r).
           lower k \<notin> {''content-encoding'', ''transfer-encoding'', ''connection''})
     \<and> (\<forall>(k, v) \<in> set (rv_headers r).
           lower k = ''content-length'' \<longrightarrow>
             k = ''Content-Length'' \<and> v = decimal (length (rv_data r)))
     \<and> fst ` set (rv_headers r)
         = {k \<in> fst ` set (resp_headers resp).
              lower k \<notin> {''content-encoding'', ''content-length'', ''transfer-encoding'',
                           ''connection''}}
           \<union> {''Content-Length''}
           \<union> (if \<exists>k \<in> fst ` set (resp_headers resp). lower k = ''content-type'' then {}
              else {''Content-Type''})
     \<and> set (rv_headers r)
         \<subseteq> set (resp_headers resp)
           \<union> {(''Content-Length'', decimal (length (rv_data r))),
              (''Content-Type'', ''text/html; charset=utf-8'')}
     \<and> (distinct (map fst (resp_headers resp)) \<longrightarrow>
          rv_headers r
            = filter (\<lambda>(k, v). lower k \<notin> {''content-encoding'', ''content-length'',
                                            ''transfer-encoding'', ''connection''})
                (resp_headers resp)
              @ (if \<exists>k \<in> fst ` set (resp_headers resp). lower k = ''content-type'' then []
                 else [(''Content-Type'', ''text/html; charset=utf-8'')])
              @ [(''Content-Length'', decimal (length (rv_data r)))])"
proof -
  let ?X = "{''content-encoding'', ''content-length'', ''transfer-encoding'', ''connection''}"
  let ?D = "dict_of_pairs (kept_headers resp)"
  let ?ct = "if \<exists>k \<in> fst ` set (resp_headers resp). lower k = ''content-type'' then []
             else [(''Content-Type'', ''text/html; charset=utf-8'')]"
  let ?cl = "(''Content-Length'', decimal (length (resp_content resp)))"
  let ?r = "Response (relay resp)"
  have r: "delivered (fst (proxy g u request path)) = Inr ?r"
    using assms by (rule delivered_Inr)
  have hs: "rv_headers ?r = ?D @ ?ct @ [?cl]" and dt: "rv_data ?r = resp_content resp"
    by (simp_all add: Response_relay)
  have setD: "set ?D \<subseteq> set (kept_headers resp)"
    by (rule set_dict_of_pairs)
  have namesD: "fst ` set ?D = {k \<in> fst ` set (resp_headers resp). lower k \<notin> ?X}"
    unfolding names_dict_of_pairs kept_headers_filter by force
  have l: "lower ''Content-Type'' = ''content-type''" "lower ''Content-Length'' = ''content-length''"
    by (rule framework_names)+
  have ne: "''content-type'' \<noteq> ''content-encoding''" "''content-type'' \<noteq> ''transfer-encoding''"
    "''content-type'' \<noteq> ''connection''" "''content-length'' \<noteq> ''content-encoding''"
    "''content-length'' \<noteq> ''transfer-encoding''" "''content-length'' \<noteq> ''connection''"
    "''content-type'' \<noteq> ''content-length''"
    by simp_all
  have kept: "\<And>k v. (k, v) \<in> set ?D \<Longrightarrow> (k, v) \<in> set (resp_headers resp) \<and> lower k \<notin> ?X"
    using setD by (auto simp: kept_headers_filter)
  have De: "distinct (map fst (resp_headers resp)) \<Longrightarrow>
              ?D = filter (\<lambda>(k, v). lower k \<notin> ?X) (resp_headers resp)"
    using dict_of_pairs_distinct[of "kept_headers resp"]
    by (simp add: kept_headers_filter distinct_map_filter)
  show ?thesis
  proof (cases "\<exists>k \<in> fst ` set (resp_headers resp). lower k = ''content-type''")
    case True
    then have hs': "rv_headers ?r = ?D @ [?cl]"
      unfolding hs by simp
    have a: "\<forall>(k, v) \<in> set (rv_headers ?r).
               lower k \<notin> {''content-encoding'', ''transfer-encoding'', ''connection''}"
      unfolding hs' using kept by (auto simp: l ne)
    have b: "\<forall>(k, v) \<in> set (rv_headers ?r).
               lower k = ''content-length'' \<longrightarrow>
                 k = ''Content-Length'' \<and> v = decimal (length (rv_data ?r))"
      unfolding hs' dt using kept by auto
    have c: "fst ` set (rv_headers ?r)
           = {k \<in> fst ` set (resp_headers resp). lower k \<notin> ?X} \<union> {''Content-Length''} \<union> {}"
      unfolding hs' by (simp add: namesD)
    have d: "set (rv_headers ?r)
           \<subseteq> set (resp_headers resp)
             \<union> {(''Content-Length'', decimal (length (rv_data ?r))),
                (''Content-Type'', ''text/html; charset=utf-8'')}"
      unfolding hs' dt using kept by auto
    have e: "distinct (map fst (resp_headers resp)) \<longrightarrow>
            rv_headers ?r
              = filter (\<lambda>(k, v). lower k \<notin> ?X) (resp_headers resp) @ []
                @ [(''Content-Length'', decimal (length (rv_data ?r)))]"
      unfolding hs' dt using De by simp
    from r a b c d e True show ?thesis
      by (intro exI[of _ ?r] conjI) (simp_all only: if_True)
  next
    case False
    then have hs': "rv_headers ?r = ?D @ [(''Content-Type'', ''text/html; charset=utf-8''), ?cl]"
      unfolding hs by simp
    have a: "\<forall>(k, v) \<in> set (rv_headers ?r).
               lower k \<notin> {''content-encoding'', ''transfer-encoding'', ''connection''}"
      unfolding hs' using kept by (auto simp: l ne)
    have b: "\<forall>(k, v) \<in> set (rv_headers ?r).
               lower k = ''content-length'' \<longrightarrow>
                 k = ''Content-Length'' \<and> v = decimal (length (rv_data ?r))"
      unfolding hs' dt using kept by (auto simp: l ne)
    have c: "fst ` set (rv_headers ?r)
           = {k \<in> fst ` set (resp_headers resp). lower k \<notin> ?X} \<union> {''Content-Length''}
             \<union> {''Content-Type''}"
      unfolding hs' by (simp add: namesD insert_commute)
    have d: "set (rv_headers ?r)
           \<subseteq> set (resp_headers resp)
             \<union> {(''Content-Length'', decimal (length (rv_data ?r))),
                (''Content-Type'', ''text/html; charset=utf-8'')}"
      unfolding hs' dt using kept by auto
    have e: "distinct (map fst (resp_headers resp)) \<longrightarrow>
            rv_headers ?r
              = filter (\<lambda>(k, v). lower k \<notin> ?X) (resp_headers resp)
                @ [(''Content-Type'', ''text/html; charset=utf-8'')]
                @ [(''Content-Length'', decimal (length (rv_data ?r)))]"
      unfolding hs' dt using De by simp
    from r a b c d e False show ?thesis
      by (intro exI[of _ ?r] conjI) (simp_all only: if_False)
  qed
qed

theorem response_headers_filtered_witness:
  "answers scenario_response (upstream_call initial_globals scenario_request scenario_path)
     = Inr scenario_response
   \<and> distinct (map fst (resp_headers scenario_response))
   \<and> lower ''CONNECTION'' = ''connection''
   \<and> decimal (length (resp_content scenario_response)) = ''2''
   \<and> (\<exists>r. delivered (fst (proxy initial_globals (answers scenario_response)
                              scenario_request scenario_path)) = Inr r
          \<and> rv_headers r = [(''Content-Type'', ''application/json''), (''Content-Length'', ''2'')])"
proof -
  have h: "answers scenario_response (upstream_call initial_globals scenario_request scenario_path)
             = Inr scenario_response"
    by (simp add: answers_def)
  have d: "distinct (map fst (resp_headers scenario_response))"
    by (simp add: scenario_response_def)
  have l: "lower ''CONNECTION'' = ''connection''"
    by code_simp
  have n: "decimal (length (resp_content scenario_response)) = ''2''"
    by code_simp
  have f: "filter (\<lambda>(k, v). lower k \<notin> {''content-encoding'', ''content-length'',
                                       ''transfer-encoding'', ''connection''})
             (resp_headers scenario_response)
           @ (if \<exists>k \<in> fst ` set (resp_headers scenario_response). lower k = ''content-type''
              then [] else [(''Content-Type'', ''text/html; charset=utf-8'')])
           = [(''Content-Type'', ''application/json'')]"
    by code_simp
  from response_headers_filtered[where u = "answers scenario_response" and g = initial_globals
      and request = scenario_request and path = scenario_path and resp = scenario_response, OF h]
  obtain r where r: "delivered (fst (proxy initial_globals (answers scenario_response)
                             scenario_request scenario_path)) = Inr r"
    and e: "distinct (map fst (resp_headers scenario_response)) \<longrightarrow>
          rv_headers r
            = filter (\<lambda>(k, v). lower k \<notin> {''content-encoding'', ''content-length'',
                                            ''transfer-encoding'', ''connection''})
                (resp_headers scenario_response)
              @ (if \<exists>k \<in> fst ` set (resp_headers scenario_response). lower k = ''content-type''
                 then [] else [(''Content-Type'', ''text/html; charset=utf-8'')])
              @ [(''Content-Length'', decimal (length (rv_data r)))]"
    by (elim exE conjE) (rule that, assumption+)
  have "rv_data r = resp_content scenario_response"
    using r delivered_Inr[where u = "answers scenario_response" and g = initial_globals
        and request = scenario_request and path = scenario_path and resp = scenario_response, OF h]
    by (auto simp: Response_relay)
  with e d f n have "rv_headers r = [(''Content-Type'', ''application/json''), (''Content-Length'', ''2'')]"
    by (simp only: append_assoc[symmetric]) simp
  with h d l n r show ?thesis by blast
qed

subsection \<open>C5: the upstream URL and the query parameters\<close>

text \<open>
  C5 says that the query parameters are forwarded as the inbound request had them. The
  view hands \<open>request.args\<close> to the library, which reads one value per key: of
  \<open>?a=1&b=2&b=3\<close> the upstream is sent \<open>a=1\<close> and \<open>b=2\<close>, and an upstream that
  answers 200 only to the three pairs answers 400.
\<close>

theorem repeated_query_value_lost:
  "request_args multi_request
     = [(ustr ''a'', ustr ''1''), (ustr ''b'', ustr ''2''), (ustr ''b'', ustr ''3'')]
   \<and> params (prepared (sent (fst (proxy initial_globals
                  (session_request wants_all_pairs (ends_with scenario_response))
                  multi_request scenario_path))))
       = [(ustr ''a'', ustr ''1''), (ustr ''b'', ustr ''2'')]
   \<and> map_sum id rv_status_code
         (delivered (fst (proxy initial_globals
                  (session_request wants_all_pairs (ends_with scenario_response))
                  multi_request scenario_path)))
       = Inr 400"
  by code_simp

subsection \<open>C6: the body\<close>

text \<open>
  C6: for every inbound body, empty or not, valid UTF-8 or not, the request put to the
  upstream carries exactly the inbound body, octet for octet: the upstream is applied
  to a request with that body, and what the view returns is what comes of its answer.
\<close>

theorem body_forwarded_bytewise:
  "data (prepared (sent (fst (proxy g (session_request server follow) request path))))
     = request_data request
   \<and> returned (fst (proxy g (session_request server follow) request path))
       = (case server (prepared (sent (fst (proxy g (session_request server follow) request path)))) of
            Inl exn \<Rightarrow> Inl exn
          | Inr resp \<Rightarrow>
              if is_redirect resp
              then (case follow resp of Inl exn \<Rightarrow> Inl exn | Inr final \<Rightarrow> Inr (relay final))
              else Inr (relay resp))"
  by (simp add: proxy_sent proxy_over_server) (simp add: prepared_def upstream_call_def)

subsection \<open>C7: status and body of the response\<close>




subsection \<open>C8: logging a body that is not text\<close>

text \<open>
  C8 says that undecodable content of the body is replaced with a placeholder in the
  log. The body is decoded with \<open>errors="ignore"\<close>: the octet \<open>0xFF\<close> between \<open>a\<close>
  and \<open>b\<close> leaves nothing in the logged line, which reads \<open>Body: ab\<close>.
\<close>

theorem undecodable_byte_dropped_from_log:
  "request_data binary_request = [0x61, 0xFF, 0x62]
   \<and> printed (fst (proxy initial_globals (answers scenario_response) binary_request scenario_path)) ! 5
       = ustr ''Body: ab''"
  by code_simp

text \<open>
  C8, as the code has it: for every inbound body, text or not, the logging step does
  not raise: the line \<open>Body: ...\<close> is printed with the decoded text, in which
  undecodable octets are left out and nothing stands in their place (the text,
  encoded again, is a subsequence of the body); the octets forwarded are the inbound
  body; and the only exception that leaves \<open>proxy\<close> is one the upstream call raised.
\<close>

theorem undecodable_body_logged_without_placeholder:
  "print_args [ustr ''Body:'', decode_utf8_ignore (request_data request)]
     \<in> set (printed (fst (proxy g u request path)))
   \<and> subseq (utf8_encode (decode_utf8_ignore (request_data request))) (request_data request)
   \<and> data (sent (fst (proxy g u request path))) = request_data request
   \<and> (\<forall>exn. returned (fst (proxy g u request path)) = Inl exn \<longrightarrow>
              u (upstream_call g request path) = Inl exn)"
proof -
  obtain ls where "printed (fst (proxy g u request path)) = incoming_log g request path @ ls"
    using incoming_log_printed by blast
  then have a: "print_args [ustr ''Body:'', decode_utf8_ignore (request_data request)]
     \<in> set (printed (fst (proxy g u request path)))"
    by (simp add: incoming_log_def)
  have d: "\<forall>exn. returned (fst (proxy g u request path)) = Inl exn \<longrightarrow>
              u (upstream_call g request path) = Inl exn"
    by (cases "u (upstream_call g request path)") (simp_all add: proxy_Inl proxy_Inr)
  show ?thesis using a d by (simp add: decode_subseq proxy_sent upstream_call_def)
qed

theorem undecodable_body_logged_without_placeholder_witness:
  "decode_utf8_ignore (request_data binary_request) = ustr ''ab''
   \<and> utf8_encode (ustr ''ab'') = [0x61, 0x62]
   \<and> request_data binary_request = [0x61, 0xFF, 0x62]
   \<and> subseq [0x61, 0x62] (request_data binary_request)
   \<and> ustr ''Body: ab'' \<in> set (printed (fst (proxy initial_globals (fails_with Timeout)
                                                  binary_request scenario_path)))
   \<and> data (sent (fst (proxy initial_globals (fails_with Timeout) binary_request scenario_path)))
       = request_data binary_request
   \<and> returned (fst (proxy initial_globals (fails_with Timeout) binary_request scenario_path))
       = Inl Timeout
   \<and> fails_with Timeout (upstream_call initial_globals binary_request scenario_path) = Inl Timeout"
proof -
  have e1: "decode_utf8_ignore (request_data binary_request) = ustr ''ab''"
    by code_simp
  have e2: "utf8_encode (ustr ''ab'') = [0x61, 0x62]"
    by code_simp
  have e3: "print_args [ustr ''Body:'', ustr ''ab''] = ustr ''Body: ab''"
    by code_simp
  have e4: "request_data binary_request = [0x61, 0xFF, 0x62]"
    by code_simp
  have r: "returned (fst (proxy initial_globals (fails_with Timeout) binary_request scenario_path))
       = Inl Timeout"
    by (simp add: proxy_def fails_with_def)
  note t = undecodable_body_logged_without_placeholder[of binary_request initial_globals
      "fails_with Timeout" scenario_path, unfolded e1 e2 e3]
  from t e1 e2 e4 r show ?thesis by blast
qed

subsection \<open>C9: no state across invocations\<close>

text \<open>
  C9: \<open>proxy\<close> leaves the module-level state as it found it; the call it makes does
  not depend on the upstream; two runs on the same request whose upstream calls get
  the same answer give the same outcome; and in a sequence of runs each outcome is the
  one the run gives on its own.
\<close>

theorem proxy_stateless:
  "snd (proxy g u request path) = g
   \<and> sent (fst (proxy g u1 request path)) = sent (fst (proxy g u2 request path))
   \<and> (u1 (upstream_call g request path) = u2 (upstream_call g request path) \<longrightarrow>
        proxy g u1 request path = proxy g u2 request path)
   \<and> serve g rs = (map (\<lambda>(u, request, path). fst (proxy g u request path)) rs, g)"
  by (simp add: proxy_globals proxy_sent serve_independent) (simp add: proxy_def)

theorem proxy_stateless_witness:
  "answers scenario_response (upstream_call initial_globals scenario_request scenario_path)
     = post_only (upstream_call initial_globals scenario_request scenario_path)
   \<and> answers scenario_response \<noteq> post_only
   \<and> proxy initial_globals (answers scenario_response) scenario_request scenario_path
       = proxy initial_globals post_only scenario_request scenario_path
   \<and> serve initial_globals
        [(fails_with Timeout, binary_request, scenario_path),
         (answers scenario_response, scenario_request, scenario_path)]
       = ([fst (proxy initial_globals (fails_with Timeout) binary_request scenario_path),
           fst (proxy initial_globals (answers scenario_response) scenario_request scenario_path)],
          initial_globals)"
proof -
  have h: "answers scenario_response (upstream_call initial_globals scenario_request scenario_path)
     = post_only (upstream_call initial_globals scenario_request scenario_path)"
    by (simp add: answers_def post_only_def upstream_call_def scenario_request_def)
  have "answers scenario_response \<lparr>http_method = [], url = [], headers = [], data = [], params = [], timeout = 30\<rparr>
        \<noteq> post_only \<lparr>http_method = [], url = [], headers = [], data = [], params = [], timeout = 30\<rparr>"
    by (simp add: answers_def post_only_def ustr_def)
  then have n: "answers scenario_response \<noteq> post_only" by metis
  from proxy_stateless[of initial_globals "answers scenario_response" scenario_request scenario_path
      "answers scenario_response" post_only
      "[(fails_with Timeout, binary_request, scenario_path),
        (answers scenario_response, scenario_request, scenario_path)]"] h n
  show ?thesis by simp
qed

subsection \<open>C10: one entry per header name in the response\<close>

text \<open>
  C10: in the response \<open>proxy\<close> returns each header name occurs once: the final
  \<open>dict\<close> conversion leaves, for every name among the kept upstream headers, exactly
  one entry, which carries the value of the last occurrence of that name.
\<close>

theorem response_header_names_unique:
  assumes "u (upstream_call g request path) = Inr resp"
  shows "\<exists>r. returned (fst (proxy g u request path)) = Inr r
     \<and> distinct (map fst (response_headers r))
     \<and> (\<forall>k \<in> fst ` set (kept_headers resp).
           length (filter (\<lambda>(k', v). k' = k) (response_headers r)) = 1)
     \<and> map_of (response_headers r) = map_of (rev (kept_headers resp))"
proof -
  have r: "returned (fst (proxy g u request path)) = Inr (relay resp)"
    using assms by (simp add: proxy_Inr)
  have hs: "response_headers (relay resp) = dict_of_pairs (kept_headers resp)"
    by (simp add: relay_def)
  have a: "distinct (map fst (response_headers (relay resp)))"
    unfolding hs by (rule distinct_dict_of_pairs)
  have b: "\<forall>k \<in> fst ` set (kept_headers resp).
             length (filter (\<lambda>(k', v). k' = k) (response_headers (relay resp))) = 1"
    using one_entry_per_key[OF a] unfolding hs names_dict_of_pairs by blast
  have c: "map_of (response_headers (relay resp)) = map_of (rev (kept_headers resp))"
    unfolding hs dict_of_pairs_def map_of_foldl_pairs by simp
  from r a b c show ?thesis by blast
qed

theorem response_header_names_unique_witness:
  "answers cookie_response (upstream_call initial_globals scenario_request scenario_path)
     = Inr cookie_response
   \<and> kept_headers cookie_response
       = [(''Set-Cookie'', ''a=1''), (''Content-Type'', ''application/json''), (''Set-Cookie'', ''b=2'')]
   \<and> (\<exists>r. returned (fst (proxy initial_globals (answers cookie_response)
                             scenario_request scenario_path)) = Inr r
          \<and> distinct (map fst (response_headers r))
          \<and> length (filter (\<lambda>(k', v). k' = ''Set-Cookie'') (response_headers r)) = 1
          \<and> map_of (response_headers r) ''Set-Cookie'' = Some ''b=2'')"
proof -
  have h: "answers cookie_response (upstream_call initial_globals scenario_request scenario_path)
             = Inr cookie_response"
    by (simp add: answers_def)
  have k: "kept_headers cookie_response
       = [(''Set-Cookie'', ''a=1''), (''Content-Type'', ''application/json''), (''Set-Cookie'', ''b=2'')]"
    by code_simp
  from response_header_names_unique[where u = "answers cookie_response" and g = initial_globals
      and request = scenario_request and path = scenario_path and resp = cookie_response, OF h]
  obtain r where r: "returned (fst (proxy initial_globals (answers cookie_response)
                             scenario_request scenario_path)) = Inr r"
    and d: "distinct (map fst (response_headers r))"
    and o: "\<forall>k \<in> fst ` set (kept_headers cookie_response).
           length (filter (\<lambda>(k', v). k' = k) (response_headers r)) = 1"
    and m: "map_of (response_headers r) = map_of (rev (kept_headers cookie_response))"
    by blast
  have "length (filter (\<lambda>(k', v). k' = ''Set-Cookie'') (response_headers r)) = 1"
    using o unfolding k by simp
  moreover have "map_of (response_headers r) ''Set-Cookie'' = Some ''b=2''"
    unfolding m k by simp
  ultimately show ?thesis using h k r d by blast
qed

end
